theory Spec2Isabelle
  imports Complex_Main
begin

section \<open>The Blinkt controller: data model\<close>

text \<open>
  The embedding follows \<^verbatim>\<open>controller/controller.go\<close>. The four state constants
  \<^verbatim>\<open>added, updated, deleted, unchanged\<close> (an \<^verbatim>\<open>iota\<close> block) are the only values
  ever stored in the field \<^verbatim>\<open>state\<close>, so the field is a datatype with these four
  constructors. The spec calls them seen, changed, removed and steady.
\<close>

datatype rstate = added | updated | deleted | unchanged

record resource =
  key :: string
  color :: string
  state :: rstate

text \<open>
  The display driver \<^verbatim>\<open>github.com/ngpitt/blinkt\<close> is an external library. The model
  records the calls the controller makes on it, oldest first. Slot indices and the cycle
  count are Go \<^verbatim>\<open>int\<close>s that are never negative here; the flash interval is a
  \<^verbatim>\<open>time.Duration\<close>, a number of nanoseconds. The brightness is a \<^verbatim>\<open>float64\<close> that
  the controller only stores and hands on, never computes with.
\<close>

datatype blinkt_call =
    NewBlinkt string real
  | Flash nat string real nat int
  | Set nat string real
  | Show
  | Cleanup string real

definition Millisecond :: int where
  "Millisecond = 1000000"

text \<open>
  \<^verbatim>\<open>ControllerObj\<close>. The mutex \<^verbatim>\<open>resourceLock\<close> has no field in the model: every
  handler holds it from its first to its last statement, so a handler is one function
  from the controller's state to its next state.
\<close>

record ControllerObj =
  brightness :: real
  resourceList :: "resource list"
  blinkt :: "blinkt_call list"

text \<open>A handler either returns the next state or panics.\<close>

datatype panic = Panicln string | NilPointerDereference

section \<open>Operations\<close>

text \<open>\<^verbatim>\<open>NewController\<close>; \<open>blue\<close> stands for the driver's constant \<^verbatim>\<open>blinkt.Blue\<close>.\<close>

definition NewController :: "string \<Rightarrow> real \<Rightarrow> ControllerObj" where
  "NewController blue b =
     \<lparr>brightness = b, resourceList = [], blinkt = [NewBlinkt blue b]\<rparr>"

text \<open>\<^verbatim>\<open>Cleanup\<close>; \<open>red\<close> stands for \<^verbatim>\<open>blinkt.Red\<close>.\<close>

definition Cleanup_ctl :: "string \<Rightarrow> ControllerObj \<Rightarrow> ControllerObj" where
  "Cleanup_ctl red c = c\<lparr>blinkt := blinkt c @ [Cleanup red (brightness c)]\<rparr>"

text \<open>
  \<^verbatim>\<open>getResource\<close> scans the list from the front and returns a pointer to the first
  record with the key, or \<^verbatim>\<open>nil\<close>. A pointer into the list is its index.
\<close>

fun getResource_from :: "nat \<Rightarrow> resource list \<Rightarrow> string \<Rightarrow> nat option" where
  "getResource_from i [] k = None"
| "getResource_from i (r # rs) k =
     (if key r = k then Some i else getResource_from (Suc i) rs k)"

definition getResource :: "ControllerObj \<Rightarrow> string \<Rightarrow> nat option" where
  "getResource c k = getResource_from 0 (resourceList c) k"

text \<open>
  The first loop of \<^verbatim>\<open>updateBlinkt\<close>. In the \<^verbatim>\<open>deleted\<close> case the source runs
  \<^verbatim>\<open>i--\<close> and then the loop's own \<^verbatim>\<open>i++\<close>, with no read of \<^verbatim>\<open>i\<close> in between, so
  the next iteration runs at the same \<open>i\<close>; the other cases go on at \<open>i + 1\<close>.
\<close>

function updateBlinkt_walk :: "nat \<Rightarrow> ControllerObj \<Rightarrow> nat \<times> ControllerObj" where
  "updateBlinkt_walk i c =
     (if i < length (resourceList c) then
        (let r = resourceList c ! i in
         case state r of
           added \<Rightarrow>
             updateBlinkt_walk (i + 1)
               (c\<lparr>resourceList := (resourceList c)[i := r\<lparr>state := unchanged\<rparr>],
                  blinkt := blinkt c @
                    (if i < 8
                     then [Flash i (color r) (brightness c) 2 (50 * Millisecond),
                           Set i (color r) (brightness c)]
                     else [])\<rparr>)
         | updated \<Rightarrow>
             updateBlinkt_walk (i + 1)
               (c\<lparr>resourceList := (resourceList c)[i := r\<lparr>state := unchanged\<rparr>],
                  blinkt := blinkt c @
                    (if i < 8
                     then [Flash i (color r) (brightness c) 2 (50 * Millisecond),
                           Set i (color r) (brightness c)]
                     else [])\<rparr>)
         | deleted \<Rightarrow>
             updateBlinkt_walk i
               (c\<lparr>resourceList := take i (resourceList c) @ drop (i + 1) (resourceList c),
                  blinkt := blinkt c @
                    (if i < 8
                     then [Flash i (color r) (brightness c) 2 (50 * Millisecond)]
                     else [])\<rparr>)
         | unchanged \<Rightarrow>
             updateBlinkt_walk (i + 1)
               (c\<lparr>blinkt := blinkt c @
                    (if i < 8 then [Set i (color r) (brightness c)] else [])\<rparr>))
      else (i, c))"
  by pat_completeness auto
termination
  by (relation "measure (\<lambda>(i, c). length (resourceList c) - i)") auto

text \<open>
  The second loop, \<^verbatim>\<open>for ; i < 8; i++ { o.blinkt.Set(i, blinkt.Off, 0) }\<close>; \<open>off\<close>
  stands for the driver's constant \<^verbatim>\<open>blinkt.Off\<close>.
\<close>

function updateBlinkt_clear :: "string \<Rightarrow> nat \<Rightarrow> ControllerObj \<Rightarrow> ControllerObj" where
  "updateBlinkt_clear off i c =
     (if i < 8
      then updateBlinkt_clear off (i + 1) (c\<lparr>blinkt := blinkt c @ [Set i off 0]\<rparr>)
      else c)"
  by pat_completeness auto
termination
  by (relation "measure (\<lambda>(off, i, c). 8 - i)") auto

definition updateBlinkt :: "string \<Rightarrow> ControllerObj \<Rightarrow> ControllerObj" where
  "updateBlinkt off c =
     (case updateBlinkt_walk 0 c of
        (i, c1) \<Rightarrow>
          (let c2 = updateBlinkt_clear off i c1
           in c2\<lparr>blinkt := blinkt c2 @ [Show]\<rparr>))"

text \<open>
  \<^verbatim>\<open>keyFunc\<close>. \<open>mk\<close> stands for client-go's
  \<^verbatim>\<open>cache.DeletionHandlingMetaNamespaceKeyFunc\<close>, which returns a key or an error
  (\<open>Inr\<close> the key, \<open>Inl\<close> the error's text).
\<close>

definition keyFunc :: "('obj \<Rightarrow> string + string) \<Rightarrow> 'obj \<Rightarrow> panic + string" where
  "keyFunc mk obj = (case mk obj of Inl err \<Rightarrow> Inl (Panicln err) | Inr k \<Rightarrow> Inr k)"

text \<open>
  The three handlers that \<^verbatim>\<open>Watch\<close> registers. \<open>colorFunc\<close> is the caller's
  classification function. The log lines are not modelled. Reading a field through the
  \<^verbatim>\<open>nil\<close> pointer that \<^verbatim>\<open>getResource\<close> returns for an unknown key is a run-time panic.
\<close>

definition AddFunc ::
  "string \<Rightarrow> ('obj \<Rightarrow> string + string) \<Rightarrow> ('obj \<Rightarrow> string) \<Rightarrow> ControllerObj \<Rightarrow> 'obj
     \<Rightarrow> panic + ControllerObj" where
  "AddFunc off mk colorFunc c obj =
     (case keyFunc mk obj of
        Inl p \<Rightarrow> Inl p
      | Inr k \<Rightarrow>
          (let col = colorFunc obj;
               r = \<lparr>key = k, color = col, state = added\<rparr>
           in Inr (updateBlinkt off (c\<lparr>resourceList := resourceList c @ [r]\<rparr>))))"

definition UpdateFunc ::
  "string \<Rightarrow> ('obj \<Rightarrow> string + string) \<Rightarrow> ('obj \<Rightarrow> string) \<Rightarrow> ControllerObj \<Rightarrow> 'obj \<Rightarrow> 'obj
     \<Rightarrow> panic + ControllerObj" where
  "UpdateFunc off mk colorFunc c oldObj newObj =
     (case keyFunc mk newObj of
        Inl p \<Rightarrow> Inl p
      | Inr k \<Rightarrow>
          (let col = colorFunc newObj in
           case getResource c k of
             None \<Rightarrow> Inl NilPointerDereference
           | Some i \<Rightarrow>
               (let r = resourceList c ! i in
                if col = color r then Inr c
                else Inr (updateBlinkt off
                       (c\<lparr>resourceList :=
                            (resourceList c)[i := r\<lparr>color := col, state := updated\<rparr>]\<rparr>)))))"

definition DeleteFunc ::
  "string \<Rightarrow> ('obj \<Rightarrow> string + string) \<Rightarrow> ControllerObj \<Rightarrow> 'obj \<Rightarrow> panic + ControllerObj" where
  "DeleteFunc off mk c obj =
     (case keyFunc mk obj of
        Inl p \<Rightarrow> Inl p
      | Inr k \<Rightarrow>
          (case getResource c k of
             None \<Rightarrow> Inl NilPointerDereference
           | Some i \<Rightarrow>
               (let r = resourceList c ! i in
                Inr (updateBlinkt off
                       (c\<lparr>resourceList := (resourceList c)[i := r\<lparr>state := deleted\<rparr>]\<rparr>)))))"

text \<open>
  The informer delivers one event at a time, each to its handler; a panic ends the run.
\<close>

datatype 'obj event = OnAdd 'obj | OnUpdate 'obj 'obj | OnDelete 'obj

fun deliver ::
  "string \<Rightarrow> ('obj \<Rightarrow> string + string) \<Rightarrow> ('obj \<Rightarrow> string) \<Rightarrow> ControllerObj \<Rightarrow> 'obj event
     \<Rightarrow> panic + ControllerObj" where
  "deliver off mk colorFunc c (OnAdd obj) = AddFunc off mk colorFunc c obj"
| "deliver off mk colorFunc c (OnUpdate oldObj newObj) =
     UpdateFunc off mk colorFunc c oldObj newObj"
| "deliver off mk colorFunc c (OnDelete obj) = DeleteFunc off mk c obj"

fun run ::
  "string \<Rightarrow> ('obj \<Rightarrow> string + string) \<Rightarrow> ('obj \<Rightarrow> string) \<Rightarrow> ControllerObj
     \<Rightarrow> 'obj event list \<Rightarrow> panic + ControllerObj" where
  "run off mk colorFunc c [] = Inr c"
| "run off mk colorFunc c (e # es) =
     (case deliver off mk colorFunc c e of
        Inl p \<Rightarrow> Inl p
      | Inr c' \<Rightarrow> run off mk colorFunc c' es)"

text \<open>
  A sequence of events in which no add event arrives for a key that the collection holds
  at that moment. client-go's informer keeps a store of the objects it knows and reports
  an object as added only when its key is not in the store, and as updated otherwise.
\<close>

fun fresh_adds ::
  "string \<Rightarrow> ('obj \<Rightarrow> string + string) \<Rightarrow> ('obj \<Rightarrow> string) \<Rightarrow> ControllerObj
     \<Rightarrow> 'obj event list \<Rightarrow> bool" where
  "fresh_adds off mk colorFunc c [] = True"
| "fresh_adds off mk colorFunc c (e # es) =
     ((case e of
         OnAdd obj \<Rightarrow>
           (case mk obj of Inl err \<Rightarrow> True | Inr k \<Rightarrow> k \<notin> set (map key (resourceList c)))
       | OnUpdate oldObj newObj \<Rightarrow> True
       | OnDelete obj \<Rightarrow> True)
      \<and> (case deliver off mk colorFunc c e of
            Inl p \<Rightarrow> True
          | Inr c' \<Rightarrow> fresh_adds off mk colorFunc c' es))"

text \<open>
  What the calls made so far determine about the eight slots: the colour and brightness
  of the last \<^verbatim>\<open>Set\<close> on a slot, and nothing (\<open>None\<close>) for a slot whose last call was
  a \<^verbatim>\<open>Flash\<close> or that no call has addressed, since what a flash leaves behind is the
  driver's business. \<^verbatim>\<open>Show\<close> commits these values as the frame. The controller
  never addresses a slot beyond 7 (every call is guarded by \<^verbatim>\<open>i < 8\<close>), and such a call
  would leave the eight values as they are.
\<close>

fun apply_call :: "(string \<times> real) option list \<Rightarrow> blinkt_call \<Rightarrow> (string \<times> real) option list" where
  "apply_call buf (Set i col b) = buf[i := Some (col, b)]"
| "apply_call buf (Flash i col b n d) = buf[i := None]"
| "apply_call buf Show = buf"
| "apply_call buf (NewBlinkt col b) = replicate 8 None"
| "apply_call buf (Cleanup col b) = replicate 8 None"

definition frame_of :: "blinkt_call list \<Rightarrow> (string \<times> real) option list" where
  "frame_of calls = foldl apply_call (replicate 8 None) calls"

section \<open>Closed forms of the render pass\<close>

text \<open>
  Two list functions that the proofs use to describe a whole pass at once. \<open>paint b i rs\<close>
  is the sequence of driver calls the first loop makes on the records \<open>rs\<close> when it
  reaches the first of them at index \<open>i\<close>; \<open>survivors rs\<close> is what the loop leaves of
  them. Lemma \<open>updateBlinkt_char\<close> proves that \<open>updateBlinkt\<close> computes exactly these.
\<close>

fun paint :: "real \<Rightarrow> nat \<Rightarrow> resource list \<Rightarrow> blinkt_call list" where
  "paint b i [] = []"
| "paint b i (r # rs) =
     (case state r of
        deleted \<Rightarrow> (if i < 8 then [Flash i (color r) b 2 (50 * Millisecond)] else []) @ paint b i rs
      | unchanged \<Rightarrow> (if i < 8 then [Set i (color r) b] else []) @ paint b (i + 1) rs
      | _ \<Rightarrow> (if i < 8 then [Flash i (color r) b 2 (50 * Millisecond), Set i (color r) b] else [])
               @ paint b (i + 1) rs)"

definition survivors :: "resource list \<Rightarrow> resource list" where
  "survivors rs = map (\<lambda>r. r\<lparr>state := unchanged\<rparr>) (filter (\<lambda>r. state r \<noteq> deleted) rs)"

section \<open>Example inputs\<close>

text \<open>
  Concrete controllers on which the theorems below are instantiated. \<open>twelve\<close> holds
  twelve records, with removed, changed and new ones before and after position 8. The
  objects of the example events are pairs of a name and a colour: \<open>name_of\<close> stands for
  the key function and \<open>snd\<close> for the colour function.
\<close>

definition rec :: "string \<Rightarrow> string \<Rightarrow> rstate \<Rightarrow> resource" where
  "rec k col s = \<lparr>key = k, color = col, state = s\<rparr>"

definition twelve :: "resource list" where
  "twelve =
     [rec ''k0'' ''red'' unchanged, rec ''k1'' ''red'' deleted, rec ''k2'' ''green'' unchanged,
      rec ''k3'' ''red'' unchanged, rec ''k4'' ''red'' unchanged, rec ''k5'' ''red'' unchanged,
      rec ''k6'' ''red'' unchanged, rec ''k7'' ''red'' unchanged, rec ''k8'' ''red'' unchanged,
      rec ''k9'' ''red'' updated, rec ''k10'' ''red'' deleted, rec ''k11'' ''blue'' added]"

definition ctl :: "resource list \<Rightarrow> ControllerObj" where
  "ctl rs = \<lparr>brightness = 1, resourceList = rs, blinkt = []\<rparr>"

definition three :: "resource list" where
  "three = [rec ''a'' ''red'' unchanged, rec ''b'' ''blue'' deleted, rec ''c'' ''green'' added]"

definition two_steady :: "resource list" where
  "two_steady = [rec ''a'' ''red'' unchanged, rec ''b'' ''blue'' unchanged]"

definition nine_steady :: "resource list" where
  "nine_steady =
     [rec ''k0'' ''red'' unchanged, rec ''k1'' ''red'' unchanged, rec ''k2'' ''red'' unchanged,
      rec ''k3'' ''red'' unchanged, rec ''k4'' ''red'' unchanged, rec ''k5'' ''red'' unchanged,
      rec ''k6'' ''red'' unchanged, rec ''k7'' ''red'' unchanged, rec ''k8'' ''red'' unchanged]"

definition four :: "resource list" where
  "four = [rec ''a'' ''red'' unchanged, rec ''b'' ''blue'' deleted,
           rec ''c'' ''green'' unchanged, rec ''d'' ''yellow'' added]"

definition eight :: "resource list" where
  "eight =
     [rec ''k0'' ''red'' unchanged, rec ''k1'' ''green'' unchanged, rec ''k2'' ''red'' unchanged,
      rec ''k3'' ''red'' unchanged, rec ''k4'' ''red'' unchanged, rec ''k5'' ''red'' unchanged,
      rec ''k6'' ''red'' unchanged, rec ''k7'' ''blue'' added]"

definition name_of :: "string \<times> string \<Rightarrow> string + string" where
  "name_of p = Inr (fst p)"

definition session :: "(string \<times> string) event list" where
  "session =
     [OnAdd (''a'', ''red''), OnAdd (''b'', ''blue''),
      OnUpdate (''a'', ''red'') (''a'', ''green''), OnDelete (''a'', ''green''),
      OnAdd (''a'', ''red'')]"

section \<open>The render pass in closed form\<close>

declare updateBlinkt_walk.simps [simp del] updateBlinkt_clear.simps [simp del]

lemma survivors_Nil [simp]: "survivors [] = []"
  by (simp add: survivors_def)

lemma survivors_Cons [simp]:
  "survivors (r # rs) =
     (if state r = deleted then survivors rs else r\<lparr>state := unchanged\<rparr> # survivors rs)"
  by (simp add: survivors_def)

lemma walk_char:
  "i \<le> length (resourceList c) \<Longrightarrow>
   updateBlinkt_walk i c =
     (i + length (survivors (drop i (resourceList c))),
      c\<lparr>resourceList := take i (resourceList c) @ survivors (drop i (resourceList c)),
        blinkt := blinkt c @ paint (brightness c) i (drop i (resourceList c))\<rparr>)"
proof (induction i c rule: updateBlinkt_walk.induct)
  case (1 i c)
  show ?case
  proof (cases "i < length (resourceList c)")
    case False
    with 1(5) have "i = length (resourceList c)" by simp
    then show ?thesis by (subst updateBlinkt_walk.simps) simp
  next
    case True
    let ?rl = "resourceList c"
    let ?r = "?rl ! i"
    have dr: "drop i ?rl = ?r # drop (Suc i) ?rl"
      using True by (simp add: Cons_nth_drop_Suc)
    show ?thesis
    proof (cases "state ?r")
      case added
      show ?thesis
        using 1(1)[OF True refl added] True added
        by (subst updateBlinkt_walk.simps) (simp add: Let_def dr take_Suc_conv_app_nth)
    next
      case updated
      show ?thesis
        using 1(2)[OF True refl updated] True updated
        by (subst updateBlinkt_walk.simps) (simp add: Let_def dr take_Suc_conv_app_nth)
    next
      case deleted
      show ?thesis
        using 1(3)[OF True refl deleted] True deleted
        by (subst updateBlinkt_walk.simps) (simp add: Let_def dr take_Suc_conv_app_nth)
    next
      case unchanged
      show ?thesis
        using 1(4)[OF True refl unchanged] True unchanged
        by (subst updateBlinkt_walk.simps) (simp add: Let_def dr take_Suc_conv_app_nth)
    qed
  qed
qed

lemma clear_char:
  "updateBlinkt_clear off i c = c\<lparr>blinkt := blinkt c @ map (\<lambda>j. Set j off 0) [i..<8]\<rparr>"
proof (induction off i c rule: updateBlinkt_clear.induct)
  case (1 off i c)
  show ?case
  proof (cases "i < 8")
    case True
    show ?thesis
      apply (subst updateBlinkt_clear.simps)
      apply (subst 1[OF True])
      using True apply (simp add: upt_conv_Cons)
      done
  next
    case False
    then show ?thesis by (subst updateBlinkt_clear.simps) simp
  qed
qed

lemma updateBlinkt_char:
  "updateBlinkt off c =
     c\<lparr>resourceList := survivors (resourceList c),
       blinkt := blinkt c @ paint (brightness c) 0 (resourceList c)
                 @ map (\<lambda>j. Set j off 0) [length (survivors (resourceList c))..<8] @ [Show]\<rparr>"
  by (simp add: updateBlinkt_def walk_char clear_char)

lemma survivors_append [simp]: "survivors (xs @ ys) = survivors xs @ survivors ys"
  by (simp add: survivors_def)

lemma survivors_steady: "\<forall>r\<in>set rs. state r = unchanged \<Longrightarrow> survivors rs = rs"
  by (induction rs) auto

lemma survivors_all_steady: "r \<in> set (survivors rs) \<Longrightarrow> state r = unchanged"
  by (auto simp: survivors_def)

lemma survivors_no_deleted:
  "\<forall>r\<in>set rs. state r \<noteq> deleted \<Longrightarrow> survivors rs = map (\<lambda>r. r\<lparr>state := unchanged\<rparr>) rs"
  by (induction rs) auto

lemma length_survivors: "length (survivors rs) = length (filter (\<lambda>r. state r \<noteq> deleted) rs)"
  by (simp add: survivors_def)

lemma map_key_survivors: "map key (survivors rs) = map key (filter (\<lambda>r. state r \<noteq> deleted) rs)"
  by (simp add: survivors_def comp_def)

lemma paint_append:
  "paint b i (xs @ ys) = paint b i xs @ paint b (i + length (survivors xs)) ys"
  by (induction xs arbitrary: i) (auto split: rstate.splits)

lemma paint_beyond: "8 \<le> i \<Longrightarrow> paint b i rs = []"
  by (induction rs arbitrary: i) (auto split: rstate.splits)

lemma paint_steady:
  "\<forall>r\<in>set rs. state r = unchanged \<Longrightarrow>
   paint b i rs = map (\<lambda>j. Set (i + j) (color (rs ! j)) b) [0..<min (length rs) (8 - i)]"
proof (induction rs arbitrary: i)
  case Nil
  then show ?case by simp
next
  case (Cons r rs)
  show ?case
  proof (cases "i < 8")
    case False
    then have "paint b i (r # rs) = []" by (intro paint_beyond) simp
    with False show ?thesis by (simp del: paint.simps)
  next
    case True
    then have m: "min (length (r # rs)) (8 - i) = Suc (min (length rs) (8 - (i + 1)))"
      by auto
    have "[0..<Suc (min (length rs) (8 - (i + 1)))]
            = 0 # map Suc [0..<min (length rs) (8 - (i + 1))]"
      by (simp add: upt_conv_Cons map_Suc_upt del: upt_Suc)
    then show ?thesis
      using Cons True unfolding m by (simp add: comp_def del: upt_Suc)
  qed
qed

lemma length_apply_call_paint:
  "length buf = 8 \<Longrightarrow> length (foldl apply_call buf (paint b i rs)) = 8"
  by (induction rs arbitrary: i buf) (auto split: rstate.splits)

lemma frame_paint_below:
  "j < i \<Longrightarrow> foldl apply_call buf (paint b i rs) ! j = buf ! j"
  by (induction rs arbitrary: i buf) (auto split: rstate.splits)

lemma frame_paint_at:
  "length buf = 8 \<Longrightarrow> i \<le> j \<Longrightarrow> j < i + length (survivors rs) \<Longrightarrow> j < 8 \<Longrightarrow>
   foldl apply_call buf (paint b i rs) ! j = Some (color (survivors rs ! (j - i)), b)"
proof (induction rs arbitrary: i buf)
  case Nil
  then show ?case by simp
next
  case (Cons r rs)
  show ?case
  proof (cases "state r = deleted")
    case True
    with Cons.prems show ?thesis
      by (simp add: Cons.IH)
  next
    case False
    show ?thesis
    proof (cases "j = i")
      case True
      with False Cons.prems show ?thesis
        by (cases "state r") (simp_all add: frame_paint_below)
    next
      case ne: False
      with Cons.prems have lt: "i + 1 \<le> j" by simp
      have "foldl apply_call buf (paint b i (r # rs)) ! j =
              Some (color (survivors rs ! (j - (i + 1))), b)"
        using False Cons.prems lt
        by (cases "state r") (simp_all add: Cons.IH)
      moreover have "survivors (r # rs) ! (j - i) = survivors rs ! (j - (i + 1))"
        using False lt by (simp add: nth_Cons')
      ultimately show ?thesis by simp
    qed
  qed
qed

lemma length_apply_call_clear:
  "length (foldl apply_call buf (map (\<lambda>j. Set j off 0) [n..<m])) = length buf"
  by (induction m) auto

lemma frame_clear:
  "length buf = 8 \<Longrightarrow> j < 8 \<Longrightarrow>
   foldl apply_call buf (map (\<lambda>j. Set j off 0) [n..<8]) ! j =
     (if n \<le> j then Some (off, 0) else buf ! j)"
proof -
  have "\<And>m. m \<le> 8 \<Longrightarrow> length buf = 8 \<Longrightarrow> j < 8 \<Longrightarrow>
      foldl apply_call buf (map (\<lambda>j. Set j off 0) [n..<m]) ! j =
       (if n \<le> j \<and> j < m then Some (off, 0) else buf ! j)"
  proof -
    fix m show "m \<le> 8 \<Longrightarrow> length buf = 8 \<Longrightarrow> j < 8 \<Longrightarrow>
      foldl apply_call buf (map (\<lambda>j. Set j off 0) [n..<m]) ! j =
       (if n \<le> j \<and> j < m then Some (off, 0) else buf ! j)"
      by (induction m) (auto simp: length_apply_call_clear nth_list_update)
  qed
  from this[of 8] show "length buf = 8 \<Longrightarrow> j < 8 \<Longrightarrow> ?thesis" by simp
qed

lemma length_foldl_apply_call:
  "length buf = 8 \<Longrightarrow> length (foldl apply_call buf cs) = 8"
proof (induction cs arbitrary: buf)
  case Nil
  then show ?case by simp
next
  case (Cons a cs)
  then show ?case by (cases a) simp_all
qed

lemma length_frame_of: "length (frame_of cs) = 8"
  by (simp add: frame_of_def length_foldl_apply_call)

lemma frame_after_pass:
  assumes "j < 8"
  shows "frame_of (blinkt (updateBlinkt off c)) ! j =
           (if j < length (survivors (resourceList c))
            then Some (color (survivors (resourceList c) ! j), brightness c)
            else Some (off, 0))"
proof -
  let ?buf = "foldl apply_call (replicate 8 None) (blinkt c)"
  have l0: "length ?buf = 8" by (simp add: length_foldl_apply_call)
  let ?buf1 = "foldl apply_call ?buf (paint (brightness c) 0 (resourceList c))"
  have l1: "length ?buf1 = 8" using l0 by (rule length_foldl_apply_call)
  have "frame_of (blinkt (updateBlinkt off c)) ! j =
          foldl apply_call ?buf1
            (map (\<lambda>j. Set j off 0) [length (survivors (resourceList c))..<8]) ! j"
    by (simp add: updateBlinkt_char frame_of_def)
  also have "\<dots> = (if length (survivors (resourceList c)) \<le> j then Some (off, 0) else ?buf1 ! j)"
    using l1 assms by (rule frame_clear)
  finally show ?thesis
    using assms l0 by (simp add: frame_paint_at)
qed

section \<open>The state of the records after a pass\<close>

text \<open>
  Claim C9. After a render pass on any collection, whatever its length, every record
  left in the collection has state \<open>unchanged\<close> (steady) and none has state
  \<open>deleted\<close> (removed). This holds at positions 8 and beyond as well, which are never
  drawn: the pass keeps exactly the records that were not removed, in their order, each
  with its state reset.
\<close>

theorem render_leaves_only_steady:
  "resourceList (updateBlinkt off c) =
     map (\<lambda>r. r\<lparr>state := unchanged\<rparr>) (filter (\<lambda>r. state r \<noteq> deleted) (resourceList c))
   \<and> (\<forall>r \<in> set (resourceList (updateBlinkt off c)). state r = unchanged \<and> state r \<noteq> deleted)"
  by (simp add: updateBlinkt_char survivors_all_steady) (simp add: survivors_def)

theorem render_leaves_only_steady_witness:
  "map key (resourceList (updateBlinkt ''off'' (ctl twelve))) =
     [''k0'', ''k2'', ''k3'', ''k4'', ''k5'', ''k6'', ''k7'', ''k8'', ''k9'', ''k11'']
   \<and> map state (resourceList (updateBlinkt ''off'' (ctl twelve))) =
     [unchanged, unchanged, unchanged, unchanged, unchanged,
      unchanged, unchanged, unchanged, unchanged, unchanged]"
  using render_leaves_only_steady [of "''off''" "ctl twelve"]
  by (simp add: ctl_def twelve_def rec_def)

section \<open>Clearing the unused slots\<close>

text \<open>
  Claim C6. After the walk, the pass sets every slot from the final length of the
  collection up to 7 to \<open>off\<close> with brightness 0: these \<^verbatim>\<open>Set\<close> calls are the last
  ones before \<^verbatim>\<open>Show\<close>, so the committed frame has \<open>(off, 0)\<close> in each of these
  slots. For an empty collection the pass is exactly the eight clearing calls and
  \<^verbatim>\<open>Show\<close>.
\<close>

theorem clear_remaining_slots:
  "(\<exists>pre. blinkt (updateBlinkt off c) =
      blinkt c @ pre @
      map (\<lambda>i. Set i off 0) [length (resourceList (updateBlinkt off c))..<8] @ [Show])
   \<and> (\<forall>i. length (resourceList (updateBlinkt off c)) \<le> i \<and> i < 8 \<longrightarrow>
          frame_of (blinkt (updateBlinkt off c)) ! i = Some (off, 0))
   \<and> (resourceList c = [] \<longrightarrow>
          blinkt (updateBlinkt off c) = blinkt c @ map (\<lambda>i. Set i off 0) [0..<8] @ [Show])"
proof (intro conjI allI impI)
  show "\<exists>pre. blinkt (updateBlinkt off c) =
      blinkt c @ pre @
      map (\<lambda>i. Set i off 0) [length (resourceList (updateBlinkt off c))..<8] @ [Show]"
    by (simp add: updateBlinkt_char)
next
  fix i
  assume "length (resourceList (updateBlinkt off c)) \<le> i \<and> i < 8"
  then show "frame_of (blinkt (updateBlinkt off c)) ! i = Some (off, 0)"
    by (simp add: frame_after_pass) (simp add: updateBlinkt_char)
next
  assume "resourceList c = []"
  then show "blinkt (updateBlinkt off c) = blinkt c @ map (\<lambda>i. Set i off 0) [0..<8] @ [Show]"
    by (simp add: updateBlinkt_char)
qed

theorem clear_remaining_slots_witness:
  "blinkt (updateBlinkt ''off'' (ctl three)) =
     [Set 0 ''red'' 1,
      Flash 1 ''blue'' 1 2 50000000,
      Flash 1 ''green'' 1 2 50000000, Set 1 ''green'' 1,
      Set 2 ''off'' 0, Set 3 ''off'' 0, Set 4 ''off'' 0, Set 5 ''off'' 0, Set 6 ''off'' 0,
      Set 7 ''off'' 0, Show]
   \<and> length (resourceList (updateBlinkt ''off'' (ctl three))) = 2
   \<and> frame_of (blinkt (updateBlinkt ''off'' (ctl three))) ! 2 = Some (''off'', 0)
   \<and> frame_of (blinkt (updateBlinkt ''off'' (ctl three))) ! 7 = Some (''off'', 0)
   \<and> blinkt (updateBlinkt ''off'' (ctl [])) =
     [Set 0 ''off'' 0, Set 1 ''off'' 0, Set 2 ''off'' 0, Set 3 ''off'' 0, Set 4 ''off'' 0,
      Set 5 ''off'' 0, Set 6 ''off'' 0, Set 7 ''off'' 0, Show]"
proof -
  have n: "length (resourceList (updateBlinkt ''off'' (ctl three))) = 2"
    by (simp add: updateBlinkt_char ctl_def three_def rec_def)
  have log: "blinkt (updateBlinkt ''off'' (ctl three)) =
     [Set 0 ''red'' 1,
      Flash 1 ''blue'' 1 2 50000000,
      Flash 1 ''green'' 1 2 50000000, Set 1 ''green'' 1,
      Set 2 ''off'' 0, Set 3 ''off'' 0, Set 4 ''off'' 0, Set 5 ''off'' 0, Set 6 ''off'' 0,
      Set 7 ''off'' 0, Show]"
    by (simp add: updateBlinkt_char ctl_def three_def rec_def Millisecond_def upt_conv_Cons)
  have e: "resourceList (ctl []) = []" "blinkt (ctl []) = []"
    by (simp_all add: ctl_def)
  note t = clear_remaining_slots [of "''off''" "ctl three"]
  note t0 = clear_remaining_slots [of "''off''" "ctl []"]
  from t have "frame_of (blinkt (updateBlinkt ''off'' (ctl three))) ! 2 = Some (''off'', 0)"
    using n by simp
  moreover from t have "frame_of (blinkt (updateBlinkt ''off'' (ctl three))) ! 7 = Some (''off'', 0)"
    using n by simp
  moreover from t0 e have "blinkt (updateBlinkt ''off'' (ctl [])) =
     [Set 0 ''off'' 0, Set 1 ''off'' 0, Set 2 ''off'' 0, Set 3 ''off'' 0, Set 4 ''off'' 0,
      Set 5 ''off'' 0, Set 6 ''off'' 0, Set 7 ''off'' 0, Show]"
    by (simp add: upt_conv_Cons)
  ultimately show ?thesis using n log by simp
qed

section \<open>Rendering a steady collection\<close>

text \<open>
  Claim C8. When every record is steady, a render pass issues one \<^verbatim>\<open>Set\<close> per
  record in the first eight positions, clears the remaining slots and commits; a second
  pass issues the same calls again, the frame committed by the second pass is the frame
  committed by the first, and the collection is the same after both.
\<close>

theorem steady_render_idempotent:
  assumes "\<forall>r\<in>set (resourceList c). state r = unchanged"
  shows "(let F = map (\<lambda>i. Set i (color (resourceList c ! i)) (brightness c))
                    [0..<min (length (resourceList c)) 8]
                  @ map (\<lambda>i. Set i off 0) [length (resourceList c)..<8] @ [Show];
              c1 = updateBlinkt off c;
              c2 = updateBlinkt off c1
          in blinkt c1 = blinkt c @ F \<and> blinkt c2 = blinkt c1 @ F
             \<and> frame_of (blinkt c2) = frame_of (blinkt c1)
             \<and> resourceList c1 = resourceList c \<and> resourceList c2 = resourceList c)"
proof -
  let ?c1 = "updateBlinkt off c"
  have s: "survivors (resourceList c) = resourceList c"
    using assms by (rule survivors_steady)
  have p: "paint (brightness c) 0 (resourceList c) =
      map (\<lambda>i. Set i (color (resourceList c ! i)) (brightness c))
        [0..<min (length (resourceList c)) 8]"
    using paint_steady [OF assms, of "brightness c" 0] by simp
  have r1: "resourceList ?c1 = resourceList c" and b1: "brightness ?c1 = brightness c"
    by (simp_all add: updateBlinkt_char s)
  have "frame_of (blinkt (updateBlinkt off ?c1)) = frame_of (blinkt ?c1)"
  proof (rule nth_equalityI)
    show "length (frame_of (blinkt (updateBlinkt off ?c1))) = length (frame_of (blinkt ?c1))"
      by (simp add: length_frame_of)
  next
    fix j assume "j < length (frame_of (blinkt (updateBlinkt off ?c1)))"
    then have "j < 8" by (simp add: length_frame_of)
    then show "frame_of (blinkt (updateBlinkt off ?c1)) ! j = frame_of (blinkt ?c1) ! j"
      by (simp add: frame_after_pass r1 b1 s)
  qed
  moreover have "blinkt ?c1 = blinkt c @ paint (brightness c) 0 (resourceList c)
      @ map (\<lambda>i. Set i off 0) [length (resourceList c)..<8] @ [Show]"
    by (simp add: updateBlinkt_char s)
  moreover have "blinkt (updateBlinkt off ?c1) = blinkt ?c1 @ paint (brightness c) 0 (resourceList c)
      @ map (\<lambda>i. Set i off 0) [length (resourceList c)..<8] @ [Show]"
    by (simp add: updateBlinkt_char [of off ?c1] r1 b1 s)
  moreover have "resourceList (updateBlinkt off ?c1) = resourceList c"
    by (simp add: updateBlinkt_char [of off ?c1] r1 s)
  ultimately show ?thesis
    unfolding Let_def p using r1 by simp
qed

theorem steady_render_idempotent_witness:
  "blinkt (updateBlinkt ''off'' (ctl two_steady)) =
     [Set 0 ''red'' 1, Set 1 ''blue'' 1,
      Set 2 ''off'' 0, Set 3 ''off'' 0, Set 4 ''off'' 0, Set 5 ''off'' 0, Set 6 ''off'' 0,
      Set 7 ''off'' 0, Show]
   \<and> blinkt (updateBlinkt ''off'' (updateBlinkt ''off'' (ctl two_steady))) =
     [Set 0 ''red'' 1, Set 1 ''blue'' 1,
      Set 2 ''off'' 0, Set 3 ''off'' 0, Set 4 ''off'' 0, Set 5 ''off'' 0, Set 6 ''off'' 0,
      Set 7 ''off'' 0, Show,
      Set 0 ''red'' 1, Set 1 ''blue'' 1,
      Set 2 ''off'' 0, Set 3 ''off'' 0, Set 4 ''off'' 0, Set 5 ''off'' 0, Set 6 ''off'' 0,
      Set 7 ''off'' 0, Show]
   \<and> frame_of (blinkt (updateBlinkt ''off'' (updateBlinkt ''off'' (ctl two_steady)))) =
       frame_of (blinkt (updateBlinkt ''off'' (ctl two_steady)))
   \<and> resourceList (updateBlinkt ''off'' (updateBlinkt ''off'' (ctl two_steady))) = two_steady"
proof -
  have h: "\<forall>r\<in>set (resourceList (ctl two_steady)). state r = unchanged"
    by (simp add: ctl_def two_steady_def rec_def)
  note t = steady_render_idempotent [OF h, of "''off''", unfolded Let_def]
  from t have a: "blinkt (updateBlinkt ''off'' (ctl two_steady)) =
     [Set 0 ''red'' 1, Set 1 ''blue'' 1,
      Set 2 ''off'' 0, Set 3 ''off'' 0, Set 4 ''off'' 0, Set 5 ''off'' 0, Set 6 ''off'' 0,
      Set 7 ''off'' 0, Show]"
    by (simp add: ctl_def two_steady_def rec_def upt_conv_Cons)
  from t have b: "blinkt (updateBlinkt ''off'' (updateBlinkt ''off'' (ctl two_steady))) =
     blinkt (updateBlinkt ''off'' (ctl two_steady)) @
     [Set 0 ''red'' 1, Set 1 ''blue'' 1,
      Set 2 ''off'' 0, Set 3 ''off'' 0, Set 4 ''off'' 0, Set 5 ''off'' 0, Set 6 ''off'' 0,
      Set 7 ''off'' 0, Show]"
    by (simp add: ctl_def two_steady_def rec_def upt_conv_Cons)
  from t have c: "frame_of (blinkt (updateBlinkt ''off'' (updateBlinkt ''off'' (ctl two_steady)))) =
       frame_of (blinkt (updateBlinkt ''off'' (ctl two_steady)))"
    by blast
  from t have d: "resourceList (updateBlinkt ''off'' (updateBlinkt ''off'' (ctl two_steady))) = two_steady"
    by (simp add: ctl_def)
  from b have b': "blinkt (updateBlinkt ''off'' (updateBlinkt ''off'' (ctl two_steady))) =
     [Set 0 ''red'' 1, Set 1 ''blue'' 1,
      Set 2 ''off'' 0, Set 3 ''off'' 0, Set 4 ''off'' 0, Set 5 ''off'' 0, Set 6 ''off'' 0,
      Set 7 ''off'' 0, Show,
      Set 0 ''red'' 1, Set 1 ''blue'' 1,
      Set 2 ''off'' 0, Set 3 ''off'' 0, Set 4 ''off'' 0, Set 5 ''off'' 0, Set 6 ''off'' 0,
      Set 7 ''off'' 0, Show]"
    unfolding a by simp
  show ?thesis by (intro conjI a b' c d)
qed

section \<open>Removed records beyond the display\<close>

text \<open>
  Claim C10. A record with state \<open>deleted\<close> (removed) that the walk reaches at an
  index of 8 or more is deleted from the collection and causes no driver call at all.
  The index at which the walk reaches a record is the number of records before it that
  are not removed (the removed ones have been deleted by then); it is the record's own
  position whenever no removed record precedes it. With at least eight such records
  before \<open>r\<close>, the pass on \<open>xs @ r # ys\<close> ends in the same controller state, display
  log included, as the pass on \<open>xs @ ys\<close>; its driver calls are those of the pass on
  \<open>xs\<close> alone, and \<open>r\<close> is not among the records it leaves.
\<close>

theorem removal_beyond_capacity_silent:
  assumes "state r = deleted"
    and "8 \<le> length (filter (\<lambda>x. state x \<noteq> deleted) xs)"
  shows "updateBlinkt off (c\<lparr>resourceList := xs @ r # ys\<rparr>) =
           updateBlinkt off (c\<lparr>resourceList := xs @ ys\<rparr>)
     \<and> blinkt (updateBlinkt off (c\<lparr>resourceList := xs @ r # ys\<rparr>)) =
           blinkt (updateBlinkt off (c\<lparr>resourceList := xs\<rparr>))
     \<and> resourceList (updateBlinkt off (c\<lparr>resourceList := xs @ r # ys\<rparr>)) =
           resourceList (updateBlinkt off (c\<lparr>resourceList := xs\<rparr>)) @
           resourceList (updateBlinkt off (c\<lparr>resourceList := ys\<rparr>))"
proof -
  from assms(2) have n: "8 \<le> length (survivors xs)"
    by (simp add: length_survivors)
  then have p: "paint (brightness c) (length (survivors xs)) zs = []" for zs
    by (rule paint_beyond)
  from n have u: "[length (survivors xs) + k..<8] = []" for k
    by simp
  show ?thesis
    using assms(1) n by (simp add: updateBlinkt_char paint_append p u)
qed

theorem removal_beyond_capacity_silent_witness:
  "updateBlinkt ''off'' (ctl (nine_steady @ rec ''k9'' ''blue'' deleted # [rec ''k10'' ''red'' added])) =
     updateBlinkt ''off'' (ctl (nine_steady @ [rec ''k10'' ''red'' added]))
   \<and> blinkt (updateBlinkt ''off'' (ctl (nine_steady @ rec ''k9'' ''blue'' deleted # [rec ''k10'' ''red'' added]))) =
     [Set 0 ''red'' 1, Set 1 ''red'' 1, Set 2 ''red'' 1, Set 3 ''red'' 1, Set 4 ''red'' 1,
      Set 5 ''red'' 1, Set 6 ''red'' 1, Set 7 ''red'' 1, Show]
   \<and> map key (resourceList (updateBlinkt ''off''
         (ctl (nine_steady @ rec ''k9'' ''blue'' deleted # [rec ''k10'' ''red'' added])))) =
     [''k0'', ''k1'', ''k2'', ''k3'', ''k4'', ''k5'', ''k6'', ''k7'', ''k8'', ''k10'']"
proof -
  have h1: "state (rec ''k9'' ''blue'' deleted) = deleted"
    by (simp add: rec_def)
  have h2: "8 \<le> length (filter (\<lambda>x. state x \<noteq> deleted) nine_steady)"
    by (simp add: nine_steady_def rec_def)
  have e: "ctl zs = (ctl [])\<lparr>resourceList := zs\<rparr>" for zs
    by (simp add: ctl_def)
  note t = removal_beyond_capacity_silent [OF h1 h2, where off = "''off''" and c = "ctl []"
      and ys = "[rec ''k10'' ''red'' added]", folded e]
  have b: "blinkt (updateBlinkt ''off'' (ctl nine_steady)) =
     [Set 0 ''red'' 1, Set 1 ''red'' 1, Set 2 ''red'' 1, Set 3 ''red'' 1, Set 4 ''red'' 1,
      Set 5 ''red'' 1, Set 6 ''red'' 1, Set 7 ''red'' 1, Show]"
    by (simp add: updateBlinkt_char ctl_def nine_steady_def rec_def)
  have k: "map key (resourceList (updateBlinkt ''off'' (ctl nine_steady))) =
      [''k0'', ''k1'', ''k2'', ''k3'', ''k4'', ''k5'', ''k6'', ''k7'', ''k8'']"
    "map key (resourceList (updateBlinkt ''off'' (ctl [rec ''k10'' ''red'' added]))) = [''k10'']"
    by (simp_all add: updateBlinkt_char ctl_def nine_steady_def rec_def)
  have t1: "updateBlinkt ''off'' (ctl (nine_steady @ rec ''k9'' ''blue'' deleted # [rec ''k10'' ''red'' added])) =
     updateBlinkt ''off'' (ctl (nine_steady @ [rec ''k10'' ''red'' added]))"
    by (rule t [THEN conjunct1])
  have t2: "blinkt (updateBlinkt ''off'' (ctl (nine_steady @ rec ''k9'' ''blue'' deleted # [rec ''k10'' ''red'' added]))) =
     blinkt (updateBlinkt ''off'' (ctl nine_steady))"
    by (rule t [THEN conjunct2, THEN conjunct1])
  have t3: "resourceList (updateBlinkt ''off''
         (ctl (nine_steady @ rec ''k9'' ''blue'' deleted # [rec ''k10'' ''red'' added]))) =
     resourceList (updateBlinkt ''off'' (ctl nine_steady)) @
     resourceList (updateBlinkt ''off'' (ctl [rec ''k10'' ''red'' added]))"
    by (rule t [THEN conjunct2, THEN conjunct2])
  show ?thesis
    by (intro conjI t1) (simp_all only: t2 t3 b k map_append append.simps)
qed

section \<open>New and changed records\<close>

text \<open>
  Claim C5. A record with state \<open>added\<close> (seen) or \<open>updated\<close> (changed) that the walk
  reaches at an index \<open>j < 8\<close> is first flashed on slot \<open>j\<close> in its colour, with 2
  cycles and an interval of 50 ms, and the very next call sets slot \<open>j\<close> to that colour;
  nothing later in the pass touches the slot, so the committed frame shows the colour
  there, and the record is steady afterwards. As in C10, \<open>j\<close> is the number of records
  before it that are not removed, which is the record's position when no removed record
  precedes it.
\<close>

theorem new_or_changed_flash_then_set:
  assumes "state r = added \<or> state r = updated"
    and "j = length (filter (\<lambda>x. state x \<noteq> deleted) xs)"
    and "j < 8"
  shows "(\<exists>pre post. blinkt (updateBlinkt off (c\<lparr>resourceList := xs @ r # ys\<rparr>)) =
            blinkt c @ pre @
            [Flash j (color r) (brightness c) 2 (50 * Millisecond),
             Set j (color r) (brightness c)] @ post)
     \<and> frame_of (blinkt (updateBlinkt off (c\<lparr>resourceList := xs @ r # ys\<rparr>))) ! j =
           Some (color r, brightness c)
     \<and> resourceList (updateBlinkt off (c\<lparr>resourceList := xs @ r # ys\<rparr>)) ! j =
           r\<lparr>state := unchanged\<rparr>"
proof -
  let ?c = "c\<lparr>resourceList := xs @ r # ys\<rparr>"
  have j: "j = length (survivors xs)"
    using assms(2) by (simp add: length_survivors)
  have nd: "state r \<noteq> deleted"
    using assms(1) by auto
  have s: "survivors (xs @ r # ys) = survivors xs @ r\<lparr>state := unchanged\<rparr> # survivors ys"
    using nd by simp
  have p: "paint (brightness c) 0 (xs @ r # ys) =
      paint (brightness c) 0 xs @
      [Flash j (color r) (brightness c) 2 (50 * Millisecond), Set j (color r) (brightness c)] @
      paint (brightness c) (j + 1) ys"
    using assms(1,3) by (auto simp: paint_append j)
  have "blinkt (updateBlinkt off ?c) =
      blinkt c @ paint (brightness c) 0 xs @
      [Flash j (color r) (brightness c) 2 (50 * Millisecond), Set j (color r) (brightness c)] @
      (paint (brightness c) (j + 1) ys @
       map (\<lambda>j. Set j off 0) [length (survivors (xs @ r # ys))..<8] @ [Show])"
    by (simp add: updateBlinkt_char p del: survivors_append survivors_Cons)
  then have 1: "\<exists>pre post. blinkt (updateBlinkt off ?c) =
            blinkt c @ pre @
            [Flash j (color r) (brightness c) 2 (50 * Millisecond),
             Set j (color r) (brightness c)] @ post"
    by blast
  have 2: "frame_of (blinkt (updateBlinkt off ?c)) ! j = Some (color r, brightness c)"
    using assms(3) nd by (simp add: frame_after_pass j)
  have 3: "resourceList (updateBlinkt off ?c) ! j = r\<lparr>state := unchanged\<rparr>"
    using nd by (simp add: updateBlinkt_char j)
  from 1 2 3 show ?thesis by blast
qed

theorem new_or_changed_flash_then_set_witness:
  "blinkt (updateBlinkt ''off'' (ctl three)) =
     [Set 0 ''red'' 1, Flash 1 ''blue'' 1 2 50000000] @
     [Flash 1 ''green'' 1 2 50000000, Set 1 ''green'' 1] @
     [Set 2 ''off'' 0, Set 3 ''off'' 0, Set 4 ''off'' 0, Set 5 ''off'' 0, Set 6 ''off'' 0,
      Set 7 ''off'' 0, Show]
   \<and> frame_of (blinkt (updateBlinkt ''off'' (ctl three))) ! 1 = Some (''green'', 1)
   \<and> resourceList (updateBlinkt ''off'' (ctl three)) ! 1 = rec ''c'' ''green'' unchanged"
proof -
  have h1: "state (rec ''c'' ''green'' added) = added \<or> state (rec ''c'' ''green'' added) = updated"
    by (simp add: rec_def)
  have h2: "1 = length (filter (\<lambda>x. state x \<noteq> deleted)
      [rec ''a'' ''red'' unchanged, rec ''b'' ''blue'' deleted])"
    by (simp add: rec_def)
  have h3: "(1::nat) < 8" by simp
  have e: "ctl three = (ctl [])\<lparr>resourceList :=
      [rec ''a'' ''red'' unchanged, rec ''b'' ''blue'' deleted] @ rec ''c'' ''green'' added # []\<rparr>"
    by (simp add: ctl_def three_def)
  note t = new_or_changed_flash_then_set [OF h1 h2 h3, where off = "''off''" and c = "ctl []"
      and ys = "[]", folded e]
  have b: "blinkt (updateBlinkt ''off'' (ctl three)) =
     [Set 0 ''red'' 1, Flash 1 ''blue'' 1 2 50000000] @
     [Flash 1 ''green'' 1 2 50000000, Set 1 ''green'' 1] @
     [Set 2 ''off'' 0, Set 3 ''off'' 0, Set 4 ''off'' 0, Set 5 ''off'' 0, Set 6 ''off'' 0,
      Set 7 ''off'' 0, Show]"
    by (simp add: updateBlinkt_char ctl_def three_def rec_def Millisecond_def upt_conv_Cons)
  have f: "frame_of (blinkt (updateBlinkt ''off'' (ctl three))) ! 1 = Some (''green'', 1)"
    using t [THEN conjunct2, THEN conjunct1] by (simp add: rec_def ctl_def)
  have r: "resourceList (updateBlinkt ''off'' (ctl three)) ! 1 = rec ''c'' ''green'' unchanged"
    using t [THEN conjunct2, THEN conjunct2] by (simp add: rec_def)
  show ?thesis by (intro conjI b f r)
qed

section \<open>Removal and compaction\<close>

text \<open>
  Claim C3. Let the record at position \<open>i\<close> be removed, and no other record of the
  collection: a pass is run right after one record has been marked, and no removed
  record outlives a pass (lemmas \<open>run_steady\<close> and \<open>DeleteFunc_marks_one\<close> at the end).
  Then one pass deletes that record; the
  records before \<open>i\<close> keep their positions and every record originally at a position
  \<open>k > i\<close> is at \<open>k - 1\<close> afterwards, so the order of the surviving records is
  unchanged. The walk does not move past \<open>i\<close> after the deletion: when \<open>i < 8\<close>, the
  departure flash on slot \<open>i\<close> is followed by the drawing of the record that was at
  \<open>i + 1\<close> on the same slot \<open>i\<close> (or by clearing slot \<open>i\<close> when there is none), and
  that is what the committed frame shows there.
\<close>

theorem removal_compacts:
  assumes "i < length (resourceList c)"
    and "state (resourceList c ! i) = deleted"
    and "\<forall>k < length (resourceList c). k \<noteq> i \<longrightarrow> state (resourceList c ! k) \<noteq> deleted"
  shows "resourceList (updateBlinkt off c) =
           map (\<lambda>r. r\<lparr>state := unchanged\<rparr>)
             (take i (resourceList c) @ drop (i + 1) (resourceList c))
     \<and> length (resourceList (updateBlinkt off c)) = length (resourceList c) - 1
     \<and> (\<forall>k < i. resourceList (updateBlinkt off c) ! k =
                  (resourceList c ! k)\<lparr>state := unchanged\<rparr>)
     \<and> (\<forall>k. i < k \<and> k < length (resourceList c) \<longrightarrow>
              resourceList (updateBlinkt off c) ! (k - 1) =
                (resourceList c ! k)\<lparr>state := unchanged\<rparr>)
     \<and> (i < 8 \<longrightarrow>
          (\<exists>pre post. blinkt (updateBlinkt off c) =
             blinkt c @ pre @
             [Flash i (color (resourceList c ! i)) (brightness c) 2 (50 * Millisecond)] @ post)
          \<and> frame_of (blinkt (updateBlinkt off c)) ! i =
              (if i + 1 < length (resourceList c)
               then Some (color (resourceList c ! (i + 1)), brightness c)
               else Some (off, 0)))"
proof -
  let ?rl = "resourceList c"
  let ?xs = "take i ?rl" and ?ys = "drop (Suc i) ?rl"
  let ?st = "\<lambda>r. r\<lparr>state := unchanged\<rparr>"
  have rl: "?rl = ?xs @ ?rl ! i # ?ys"
    using assms(1) by (simp add: id_take_nth_drop)
  have xs: "\<forall>r\<in>set ?xs. state r \<noteq> deleted"
    using assms(1,3) by (auto simp: in_set_conv_nth)
  have ys: "\<forall>r\<in>set ?ys. state r \<noteq> deleted"
    using assms(1,3) by (auto simp: in_set_conv_nth)
  have "survivors ?rl = survivors ?xs @ survivors (?rl ! i # ?ys)"
    by (subst rl) (simp only: survivors_append)
  then have s: "survivors ?rl = map ?st (?xs @ ?ys)"
    using assms(2) by (simp add: survivors_no_deleted [OF xs] survivors_no_deleted [OF ys])
  have lx: "length (survivors ?xs) = i"
    using assms(1) by (simp add: survivors_no_deleted [OF xs])
  have res: "resourceList (updateBlinkt off c) = map ?st (?xs @ ?ys)"
    by (simp only: updateBlinkt_char s) simp
  have res': "resourceList (updateBlinkt off c) = map ?st (?xs @ drop (i + 1) ?rl)"
    by (simp add: res)
  have len: "length (resourceList (updateBlinkt off c)) = length ?rl - 1"
    using assms(1) by (simp add: res)
  have before: "\<forall>k < i. resourceList (updateBlinkt off c) ! k = ?st (?rl ! k)"
    using assms(1) by (simp add: res nth_append)
  have after: "\<forall>k. i < k \<and> k < length ?rl \<longrightarrow>
      resourceList (updateBlinkt off c) ! (k - 1) = ?st (?rl ! k)"
  proof (intro allI impI)
    fix k assume k: "i < k \<and> k < length ?rl"
    then obtain m where m: "k = Suc (i + m)"
      using less_imp_Suc_add by blast
    with k have ml: "m < length ?ys" by simp
    have "(map ?st ?xs @ map ?st ?ys) ! (length (map ?st ?xs) + m) = map ?st ?ys ! m"
      by (rule nth_append_length_plus)
    moreover have "length (map ?st ?xs) = i"
      using assms(1) by simp
    moreover have "map ?st ?ys ! m = ?st (?rl ! k)"
      using ml k by (simp add: m)
    ultimately show "resourceList (updateBlinkt off c) ! (k - 1) = ?st (?rl ! k)"
      by (simp add: res m)
  qed
  have disp: "(\<exists>pre post. blinkt (updateBlinkt off c) =
             blinkt c @ pre @
             [Flash i (color (?rl ! i)) (brightness c) 2 (50 * Millisecond)] @ post)
          \<and> frame_of (blinkt (updateBlinkt off c)) ! i =
              (if i + 1 < length ?rl
               then Some (color (?rl ! (i + 1)), brightness c)
               else Some (off, 0))" if i8: "i < 8"
  proof
    have "paint (brightness c) 0 ?rl =
        paint (brightness c) 0 ?xs @ paint (brightness c) i (?rl ! i # ?ys)"
      by (subst rl) (simp only: paint_append lx add_0)
    then have "paint (brightness c) 0 ?rl =
        paint (brightness c) 0 ?xs @
        [Flash i (color (?rl ! i)) (brightness c) 2 (50 * Millisecond)] @
        paint (brightness c) i ?ys"
      using assms(2) i8 by simp
    then have "blinkt (updateBlinkt off c) =
        blinkt c @ paint (brightness c) 0 ?xs @
        [Flash i (color (?rl ! i)) (brightness c) 2 (50 * Millisecond)] @
        (paint (brightness c) i ?ys @
         map (\<lambda>j. Set j off 0) [length (survivors ?rl)..<8] @ [Show])"
      by (simp add: updateBlinkt_char)
    then show "\<exists>pre post. blinkt (updateBlinkt off c) =
             blinkt c @ pre @
             [Flash i (color (?rl ! i)) (brightness c) 2 (50 * Millisecond)] @ post"
      by blast
  next
    have l: "length (survivors ?rl) = length ?rl - 1"
      using assms(1) by (simp add: s)
    show "frame_of (blinkt (updateBlinkt off c)) ! i =
              (if i + 1 < length ?rl
               then Some (color (?rl ! (i + 1)), brightness c)
               else Some (off, 0))"
    proof (cases "i + 1 < length ?rl")
      case True
      have "survivors ?rl ! i = ?st (?rl ! (i + 1))"
        using after [rule_format, of "i + 1"] True by (simp add: updateBlinkt_char)
      moreover from True l have "i < length (survivors ?rl)" by arith
      ultimately show ?thesis
        using True i8 by (simp add: frame_after_pass)
    next
      case False
      with l have "\<not> i < length (survivors ?rl)" by arith
      with False show ?thesis
        using i8 by (simp add: frame_after_pass)
    qed
  qed
  from res' len before after disp show ?thesis by blast
qed

theorem removal_compacts_witness:
  "resourceList (updateBlinkt ''off'' (ctl four)) =
     [rec ''a'' ''red'' unchanged, rec ''c'' ''green'' unchanged, rec ''d'' ''yellow'' unchanged]
   \<and> resourceList (updateBlinkt ''off'' (ctl four)) ! 0 = rec ''a'' ''red'' unchanged
   \<and> resourceList (updateBlinkt ''off'' (ctl four)) ! 1 = rec ''c'' ''green'' unchanged
   \<and> resourceList (updateBlinkt ''off'' (ctl four)) ! 2 = rec ''d'' ''yellow'' unchanged
   \<and> blinkt (updateBlinkt ''off'' (ctl four)) =
     [Set 0 ''red'' 1] @ [Flash 1 ''blue'' 1 2 50000000] @
     [Set 1 ''green'' 1, Flash 2 ''yellow'' 1 2 50000000, Set 2 ''yellow'' 1,
      Set 3 ''off'' 0, Set 4 ''off'' 0, Set 5 ''off'' 0, Set 6 ''off'' 0, Set 7 ''off'' 0, Show]
   \<and> frame_of (blinkt (updateBlinkt ''off'' (ctl four))) ! 1 = Some (''green'', 1)"
proof -
  have h1: "1 < length (resourceList (ctl four))"
    by (simp add: ctl_def four_def)
  have h2: "state (resourceList (ctl four) ! 1) = deleted"
    by (simp add: ctl_def four_def rec_def)
  have h3: "\<forall>k < length (resourceList (ctl four)). k \<noteq> 1 \<longrightarrow>
      state (resourceList (ctl four) ! k) \<noteq> deleted"
    by (auto simp: ctl_def four_def rec_def nth_Cons')
  note t = removal_compacts [OF h1 h2 h3, of "''off''"]
  have a: "resourceList (updateBlinkt ''off'' (ctl four)) =
     [rec ''a'' ''red'' unchanged, rec ''c'' ''green'' unchanged, rec ''d'' ''yellow'' unchanged]"
    using t [THEN conjunct1] by (simp add: ctl_def four_def rec_def)
  have b: "blinkt (updateBlinkt ''off'' (ctl four)) =
     [Set 0 ''red'' 1] @ [Flash 1 ''blue'' 1 2 50000000] @
     [Set 1 ''green'' 1, Flash 2 ''yellow'' 1 2 50000000, Set 2 ''yellow'' 1,
      Set 3 ''off'' 0, Set 4 ''off'' 0, Set 5 ''off'' 0, Set 6 ''off'' 0, Set 7 ''off'' 0, Show]"
    by (simp add: updateBlinkt_char ctl_def four_def rec_def Millisecond_def upt_conv_Cons)
  have f: "frame_of (blinkt (updateBlinkt ''off'' (ctl four))) ! 1 = Some (''green'', 1)"
    using t [THEN conjunct2, THEN conjunct2, THEN conjunct2, THEN conjunct2]
    by (simp add: ctl_def four_def rec_def)
  show ?thesis
    by (intro conjI b f) (simp_all add: a)
qed

section \<open>Looking a record up\<close>

lemma getResource_from_None:
  "getResource_from i rs k = None \<longleftrightarrow> k \<notin> key ` set rs"
  by (induction rs arbitrary: i) auto

lemma getResource_from_Some:
  "getResource_from i rs k = Some j \<Longrightarrow>
     i \<le> j \<and> j - i < length rs \<and> key (rs ! (j - i)) = k \<and> (\<forall>m < j - i. key (rs ! m) \<noteq> k)"
proof (induction rs arbitrary: i)
  case Nil
  then show ?case by simp
next
  case (Cons r rs)
  show ?case
  proof (cases "key r = k")
    case True
    with Cons.prems show ?thesis by simp
  next
    case False
    with Cons.prems have "getResource_from (Suc i) rs k = Some j" by simp
    from Cons.IH [OF this]
    have ih: "Suc i \<le> j" "j - Suc i < length rs" "key (rs ! (j - Suc i)) = k"
      "\<forall>m < j - Suc i. key (rs ! m) \<noteq> k"
      by simp_all
    from ih(1) have e: "j - i = Suc (j - Suc i)" by simp
    show ?thesis
      unfolding e using ih False by (auto simp: nth_Cons' less_Suc_eq_0_disj)
  qed
qed

lemma getResource_None: "getResource c k = None \<longleftrightarrow> k \<notin> key ` set (resourceList c)"
  by (simp add: getResource_def getResource_from_None)

lemma getResource_Some:
  "getResource c k = Some i \<Longrightarrow>
     i < length (resourceList c) \<and> key (resourceList c ! i) = k
     \<and> (\<forall>m < i. key (resourceList c ! m) \<noteq> k)"
  using getResource_from_Some [of 0 "resourceList c" k i]
  by (simp add: getResource_def)

section \<open>Events for a key that is not tracked\<close>

text \<open>
  Claim C2. An update or removal event whose key has no record in the collection does
  not go on as if the record existed: \<^verbatim>\<open>getResource\<close> returns \<^verbatim>\<open>nil\<close>, and the handler's
  first use of the pointer (\<^verbatim>\<open>r.color\<close> in \<^verbatim>\<open>UpdateFunc\<close>, \<^verbatim>\<open>r.key\<close> in
  \<^verbatim>\<open>DeleteFunc\<close>) panics, before any record is changed and before any driver call.
\<close>

theorem unknown_key_panics:
  assumes "mk obj = Inr k"
    and "k \<notin> key ` set (resourceList c)"
  shows "UpdateFunc off mk colorFunc c oldObj obj = Inl NilPointerDereference
     \<and> DeleteFunc off mk c obj = Inl NilPointerDereference"
proof -
  from assms(2) have "getResource c k = None"
    by (simp add: getResource_None)
  with assms(1) show ?thesis
    by (simp add: UpdateFunc_def DeleteFunc_def keyFunc_def)
qed

theorem unknown_key_panics_witness:
  "UpdateFunc ''off'' name_of snd (ctl two_steady) (''z'', ''red'') (''z'', ''blue'')
     = Inl NilPointerDereference
   \<and> DeleteFunc ''off'' name_of (ctl two_steady) (''z'', ''blue'')
     = Inl NilPointerDereference"
proof -
  have h1: "name_of (''z'', ''blue'') = (Inr ''z'' :: string + string)"
    by (simp add: name_of_def)
  have h2: "''z'' \<notin> key ` set (resourceList (ctl two_steady))"
    by (simp add: ctl_def two_steady_def rec_def)
  show ?thesis
    using unknown_key_panics [where mk = name_of and obj = "(''z'', ''blue'')"
        and k = "''z''" and c = "ctl two_steady", OF h1 h2]
    by simp
qed

section \<open>An update that does not change the colour\<close>

text \<open>
  Claim C4. When an update event's key is found (\<open>getResource c k = Some i\<close>: the record
  for the key is the one at index \<open>i\<close>, the first with that key) and the colour computed
  for the new object equals the colour stored in that record, \<^verbatim>\<open>UpdateFunc\<close> returns
  with the controller exactly as it was: no record's state or colour changes, the
  collection is the same, and the display log is the same, so no render pass has run.
\<close>

theorem update_same_color_noop:
  assumes "mk newObj = Inr k"
    and "getResource c k = Some i"
    and "colorFunc newObj = color (resourceList c ! i)"
  shows "UpdateFunc off mk colorFunc c oldObj newObj = Inr c"
  using assms by (simp add: UpdateFunc_def keyFunc_def)

theorem update_same_color_noop_witness:
  "getResource (ctl two_steady) ''b'' = Some 1
   \<and> color (resourceList (ctl two_steady) ! 1) = ''blue''
   \<and> UpdateFunc ''off'' name_of snd (ctl two_steady) (''b'', ''blue'') (''b'', ''blue'')
     = Inr (ctl two_steady)"
proof -
  have h1: "name_of (''b'', ''blue'') = (Inr ''b'' :: string + string)"
    by (simp add: name_of_def)
  have h2: "getResource (ctl two_steady) ''b'' = Some 1"
    by (simp add: getResource_def ctl_def two_steady_def rec_def)
  have h3: "snd (''b'', ''blue'') = color (resourceList (ctl two_steady) ! 1)"
    by (simp add: ctl_def two_steady_def rec_def)
  from h3 have c: "color (resourceList (ctl two_steady) ! 1) = ''blue''"
    by simp
  show ?thesis
    using update_same_color_noop [where mk = name_of and newObj = "(''b'', ''blue'')"
        and k = "''b''" and c = "ctl two_steady" and colorFunc = snd and i = 1, OF h1 h2 h3]
      h2 c
    by simp
qed

section \<open>A ninth resource\<close>

text \<open>
  Claim C7. Let the controller be in the state a render pass has left, with exactly 8
  records (all steady, by Claim C9); the frame that pass committed shows the colour of
  record \<open>i\<close> in slot \<open>i\<close>. An add event for a further object appends its record, which
  ends steady in position 8, and the pass that \<^verbatim>\<open>AddFunc\<close> runs makes exactly the eight
  \<^verbatim>\<open>Set\<close> calls for the first eight records and \<^verbatim>\<open>Show\<close>: no call for the ninth
  record, no flash, and a frame equal to the previous one in all eight slots.
\<close>

theorem ninth_resource_not_displayed:
  assumes "c = updateBlinkt off c0"
    and "length (resourceList c) = 8"
    and "mk obj = Inr k"
  shows "AddFunc off mk colorFunc c obj =
           Inr (c\<lparr>resourceList :=
                   resourceList c @ [\<lparr>key = k, color = colorFunc obj, state = unchanged\<rparr>],
                 blinkt :=
                   blinkt c @
                   map (\<lambda>i. Set i (color (resourceList c ! i)) (brightness c)) [0..<8] @
                   [Show]\<rparr>)
     \<and> frame_of (blinkt c @
                  map (\<lambda>i. Set i (color (resourceList c ! i)) (brightness c)) [0..<8] @
                  [Show]) = frame_of (blinkt c)
     \<and> frame_of (blinkt c) = map (\<lambda>r. Some (color r, brightness c)) (resourceList c)"
proof -
  let ?rl = "resourceList c"
  let ?new = "\<lparr>key = k, color = colorFunc obj, state = added\<rparr>"
  let ?c1 = "c\<lparr>resourceList := ?rl @ [?new]\<rparr>"
  let ?F = "map (\<lambda>i. Set i (color (?rl ! i)) (brightness c)) [0..<8] @ [Show]"
  have rl0: "?rl = survivors (resourceList c0)" and b0: "brightness c = brightness c0"
    using assms(1) by (simp_all add: updateBlinkt_char)
  have st: "\<forall>r\<in>set ?rl. state r = unchanged"
    by (simp add: rl0 survivors_all_steady)
  have s: "survivors ?rl = ?rl"
    using st by (rule survivors_steady)
  have p: "paint (brightness c) 0 ?rl =
      map (\<lambda>i. Set i (color (?rl ! i)) (brightness c)) [0..<8]"
    using paint_steady [OF st, of "brightness c" 0] assms(2) by simp
  have pass: "updateBlinkt off ?c1 =
      c\<lparr>resourceList := ?rl @ [?new\<lparr>state := unchanged\<rparr>], blinkt := blinkt c @ ?F\<rparr>"
    using assms(2) by (simp add: updateBlinkt_char paint_append s p paint_beyond)
  have add: "AddFunc off mk colorFunc c obj = Inr (updateBlinkt off ?c1)"
    using assms(3) by (simp add: AddFunc_def keyFunc_def)
  have old: "frame_of (blinkt c) ! j = Some (color (?rl ! j), brightness c)" if "j < 8" for j
    using that assms(2) unfolding assms(1)
    by (simp add: frame_after_pass) (simp add: updateBlinkt_char)
  have new: "frame_of (blinkt c @ ?F) ! j = Some (color (?rl ! j), brightness c)" if "j < 8" for j
  proof -
    have "frame_of (blinkt (updateBlinkt off ?c1)) ! j =
        Some (color ((?rl @ [?new\<lparr>state := unchanged\<rparr>]) ! j), brightness c)"
      using that assms(2) by (simp add: frame_after_pass s)
    then show ?thesis
      using that assms(2) by (simp add: pass nth_append)
  qed
  have f1: "frame_of (blinkt c @ ?F) = frame_of (blinkt c)"
    by (rule nth_equalityI) (simp_all add: length_frame_of old new)
  have f2: "frame_of (blinkt c) = map (\<lambda>r. Some (color r, brightness c)) ?rl"
    by (rule nth_equalityI) (simp_all add: length_frame_of old assms(2))
  from add pass f1 f2 show ?thesis by simp
qed

theorem ninth_resource_not_displayed_witness:
  "length (resourceList (updateBlinkt ''off'' (ctl eight))) = 8
   \<and> AddFunc ''off'' name_of snd (updateBlinkt ''off'' (ctl eight)) (''k8'', ''white'') =
       Inr ((updateBlinkt ''off'' (ctl eight))
         \<lparr>resourceList :=
            resourceList (updateBlinkt ''off'' (ctl eight)) @ [rec ''k8'' ''white'' unchanged],
          blinkt :=
            blinkt (updateBlinkt ''off'' (ctl eight)) @
            [Set 0 ''red'' 1, Set 1 ''green'' 1, Set 2 ''red'' 1, Set 3 ''red'' 1,
             Set 4 ''red'' 1, Set 5 ''red'' 1, Set 6 ''red'' 1, Set 7 ''blue'' 1, Show]\<rparr>)
   \<and> frame_of (blinkt (updateBlinkt ''off'' (ctl eight)) @
            [Set 0 ''red'' 1, Set 1 ''green'' 1, Set 2 ''red'' 1, Set 3 ''red'' 1,
             Set 4 ''red'' 1, Set 5 ''red'' 1, Set 6 ''red'' 1, Set 7 ''blue'' 1, Show]) =
       frame_of (blinkt (updateBlinkt ''off'' (ctl eight)))
   \<and> frame_of (blinkt (updateBlinkt ''off'' (ctl eight))) =
       [Some (''red'', 1), Some (''green'', 1), Some (''red'', 1), Some (''red'', 1),
        Some (''red'', 1), Some (''red'', 1), Some (''red'', 1), Some (''blue'', 1)]"
proof -
  have h1: "updateBlinkt ''off'' (ctl eight) = updateBlinkt ''off'' (ctl eight)"
    by (rule refl)
  have r: "resourceList (updateBlinkt ''off'' (ctl eight)) =
      [rec ''k0'' ''red'' unchanged, rec ''k1'' ''green'' unchanged, rec ''k2'' ''red'' unchanged,
       rec ''k3'' ''red'' unchanged, rec ''k4'' ''red'' unchanged, rec ''k5'' ''red'' unchanged,
       rec ''k6'' ''red'' unchanged, rec ''k7'' ''blue'' unchanged]"
    "brightness (updateBlinkt ''off'' (ctl eight)) = 1"
    by (simp_all add: updateBlinkt_char ctl_def eight_def rec_def)
  have h2: "length (resourceList (updateBlinkt ''off'' (ctl eight))) = 8"
    by (simp add: r)
  have h3: "name_of (''k8'', ''white'') = (Inr ''k8'' :: string + string)"
    by (simp add: name_of_def)
  have m: "map (\<lambda>i. Set i (color (resourceList (updateBlinkt ''off'' (ctl eight)) ! i))
                  (brightness (updateBlinkt ''off'' (ctl eight)))) [0..<8] @ [Show] =
      [Set 0 ''red'' 1, Set 1 ''green'' 1, Set 2 ''red'' 1, Set 3 ''red'' 1,
       Set 4 ''red'' 1, Set 5 ''red'' 1, Set 6 ''red'' 1, Set 7 ''blue'' 1, Show]"
    by (simp add: r rec_def upt_conv_Cons)
  note t = ninth_resource_not_displayed [where mk = name_of and obj = "(''k8'', ''white'')"
      and k = "''k8''" and colorFunc = snd and off = "''off''", OF h1 h2 h3, unfolded m]
  have a: "AddFunc ''off'' name_of snd (updateBlinkt ''off'' (ctl eight)) (''k8'', ''white'') =
       Inr ((updateBlinkt ''off'' (ctl eight))
         \<lparr>resourceList :=
            resourceList (updateBlinkt ''off'' (ctl eight)) @ [rec ''k8'' ''white'' unchanged],
          blinkt :=
            blinkt (updateBlinkt ''off'' (ctl eight)) @
            [Set 0 ''red'' 1, Set 1 ''green'' 1, Set 2 ''red'' 1, Set 3 ''red'' 1,
             Set 4 ''red'' 1, Set 5 ''red'' 1, Set 6 ''red'' 1, Set 7 ''blue'' 1, Show]\<rparr>)"
    using t [THEN conjunct1] by (simp add: rec_def)
  have f: "frame_of (blinkt (updateBlinkt ''off'' (ctl eight))) =
       [Some (''red'', 1), Some (''green'', 1), Some (''red'', 1), Some (''red'', 1),
        Some (''red'', 1), Some (''red'', 1), Some (''red'', 1), Some (''blue'', 1)]"
    using t [THEN conjunct2, THEN conjunct2] by (simp add: r rec_def)
  show ?thesis
    by (intro conjI h2 a f t [THEN conjunct2, THEN conjunct1])
qed

section \<open>Uniqueness of keys\<close>

lemma distinct_keys_survivors:
  "distinct (map key rs) \<Longrightarrow> distinct (map key (survivors rs))"
  by (simp add: map_key_survivors distinct_map_filter)

lemma distinct_keys_pass:
  "distinct (map key (resourceList c)) \<Longrightarrow>
   distinct (map key (resourceList (updateBlinkt off c)))"
  by (simp add: updateBlinkt_char distinct_keys_survivors)

lemma map_key_update:
  "i < length rs \<Longrightarrow> key r = key (rs ! i) \<Longrightarrow> map key (rs[i := r]) = map key rs"
  by (simp add: map_update list_update_same_conv)

lemma AddFunc_distinct:
  assumes "distinct (map key (resourceList c))"
    and "\<And>k. mk obj = Inr k \<Longrightarrow> k \<notin> set (map key (resourceList c))"
    and "AddFunc off mk colorFunc c obj = Inr c'"
  shows "distinct (map key (resourceList c'))"
proof (cases "mk obj")
  case (Inl err)
  with assms(3) show ?thesis by (simp add: AddFunc_def keyFunc_def)
next
  case (Inr k)
  let ?c1 = "c\<lparr>resourceList := resourceList c @ [\<lparr>key = k, color = colorFunc obj, state = added\<rparr>]\<rparr>"
  from Inr assms(3) have c': "c' = updateBlinkt off ?c1"
    by (simp add: AddFunc_def keyFunc_def)
  have "distinct (map key (resourceList ?c1))"
    using assms(1) assms(2) [OF Inr] by simp
  then show ?thesis
    unfolding c' by (rule distinct_keys_pass)
qed

lemma UpdateFunc_distinct:
  assumes "distinct (map key (resourceList c))"
    and "UpdateFunc off mk colorFunc c oldObj newObj = Inr c'"
  shows "distinct (map key (resourceList c'))"
proof (cases "mk newObj")
  case (Inl err)
  with assms(2) show ?thesis by (simp add: UpdateFunc_def keyFunc_def)
next
  case (Inr k)
  show ?thesis
  proof (cases "getResource c k")
    case None
    with Inr assms(2) show ?thesis by (simp add: UpdateFunc_def keyFunc_def)
  next
    case (Some i)
    then have i: "i < length (resourceList c)"
      by (simp add: getResource_Some)
    let ?r = "resourceList c ! i"
    let ?c1 = "c\<lparr>resourceList := (resourceList c)[i := ?r\<lparr>color := colorFunc newObj, state := updated\<rparr>]\<rparr>"
    have d: "distinct (map key (resourceList ?c1))"
      using assms(1) i by (simp add: map_key_update)
    from Inr Some assms(2) have "c' = c \<or> c' = updateBlinkt off ?c1"
      by (auto simp: UpdateFunc_def keyFunc_def Let_def split: if_splits)
    then show ?thesis
      using assms(1) distinct_keys_pass [OF d] by auto
  qed
qed

lemma DeleteFunc_distinct:
  assumes "distinct (map key (resourceList c))"
    and "DeleteFunc off mk c obj = Inr c'"
  shows "distinct (map key (resourceList c'))"
proof (cases "mk obj")
  case (Inl err)
  with assms(2) show ?thesis by (simp add: DeleteFunc_def keyFunc_def)
next
  case (Inr k)
  show ?thesis
  proof (cases "getResource c k")
    case None
    with Inr assms(2) show ?thesis by (simp add: DeleteFunc_def keyFunc_def)
  next
    case (Some i)
    then have i: "i < length (resourceList c)"
      by (simp add: getResource_Some)
    let ?r = "resourceList c ! i"
    let ?c1 = "c\<lparr>resourceList := (resourceList c)[i := ?r\<lparr>state := deleted\<rparr>]\<rparr>"
    have d: "distinct (map key (resourceList ?c1))"
      using assms(1) i by (simp add: map_key_update)
    from Inr Some assms(2) have "c' = updateBlinkt off ?c1"
      by (simp add: DeleteFunc_def keyFunc_def Let_def)
    then show ?thesis
      using distinct_keys_pass [OF d] by simp
  qed
qed

lemma run_distinct:
  "distinct (map key (resourceList c)) \<Longrightarrow> fresh_adds off mk colorFunc c es \<Longrightarrow>
   run off mk colorFunc c (take n es) = Inr c' \<Longrightarrow> distinct (map key (resourceList c'))"
proof (induction es arbitrary: c n)
  case Nil
  then show ?case by simp
next
  case (Cons e es)
  show ?case
  proof (cases n)
    case 0
    with Cons.prems show ?thesis by simp
  next
    case (Suc m)
    with Cons.prems(3) obtain c1 where
      d: "deliver off mk colorFunc c e = Inr c1" and r: "run off mk colorFunc c1 (take m es) = Inr c'"
      by (auto split: sum.splits)
    from Cons.prems(2) d have f: "fresh_adds off mk colorFunc c1 es"
      by simp
    have "distinct (map key (resourceList c1))"
    proof (cases e)
      case (OnAdd obj)
      with Cons.prems(2) have fr: "\<And>k. mk obj = Inr k \<Longrightarrow> k \<notin> set (map key (resourceList c))"
        by simp
      from d OnAdd have "AddFunc off mk colorFunc c obj = Inr c1"
        by simp
      with Cons.prems(1) fr show ?thesis
        by (rule AddFunc_distinct)
    next
      case (OnUpdate oldObj newObj)
      with d have "UpdateFunc off mk colorFunc c oldObj newObj = Inr c1"
        by simp
      with Cons.prems(1) show ?thesis
        by (rule UpdateFunc_distinct)
    next
      case (OnDelete obj)
      with d have "DeleteFunc off mk c obj = Inr c1"
        by simp
      with Cons.prems(1) show ?thesis
        by (rule DeleteFunc_distinct)
    qed
    from Cons.IH [OF this f r] show ?thesis .
  qed
qed

text \<open>
  Claim C1, as amended. \<^verbatim>\<open>AddFunc\<close> appends a record without looking for the key, so
  the claim does not hold for every sequence of events: two add events for one key, with
  no removal between them, leave two records with that key. It holds for the sequences in which no add event
  is delivered for a key that is in the collection at that moment (\<open>fresh_adds\<close>):
  started from the empty tracker, after every prefix of such a sequence the keys of the
  collection are pairwise distinct.
\<close>

theorem keys_unique_when_adds_are_fresh:
  assumes "fresh_adds off mk colorFunc (NewController blue b) es"
    and "run off mk colorFunc (NewController blue b) (take n es) = Inr c"
  shows "distinct (map key (resourceList c))"
proof -
  have "distinct (map key (resourceList (NewController blue b)))"
    by (simp add: NewController_def)
  from this assms show ?thesis by (rule run_distinct)
qed

theorem keys_unique_when_adds_are_fresh_witness:
  "fresh_adds ''off'' name_of snd (NewController ''blue'' 1) session
   \<and> (\<exists>c. run ''off'' name_of snd (NewController ''blue'' 1) (take 5 session) = Inr c
          \<and> resourceList c = [rec ''b'' ''blue'' unchanged, rec ''a'' ''red'' unchanged]
          \<and> distinct (map key (resourceList c)))"
proof -
  have h1: "fresh_adds ''off'' name_of snd (NewController ''blue'' 1) session"
    by (simp add: session_def NewController_def name_of_def AddFunc_def UpdateFunc_def
        DeleteFunc_def keyFunc_def getResource_def updateBlinkt_char Let_def)
  obtain c where h2: "run ''off'' name_of snd (NewController ''blue'' 1) (take 5 session) = Inr c"
    and r: "resourceList c = [rec ''b'' ''blue'' unchanged, rec ''a'' ''red'' unchanged]"
    by (simp add: session_def NewController_def name_of_def AddFunc_def UpdateFunc_def
        DeleteFunc_def keyFunc_def getResource_def updateBlinkt_char rec_def Let_def)
  from keys_unique_when_adds_are_fresh [OF h1 h2] h1 h2 r show ?thesis
    by blast
qed

theorem duplicate_add_counterexample:
  "run ''off'' name_of snd (NewController ''blue'' 1) [OnAdd (''a'', ''red''), OnAdd (''a'', ''red'')] =
     Inr \<lparr>brightness = 1,
          resourceList = [rec ''a'' ''red'' unchanged, rec ''a'' ''red'' unchanged],
          blinkt =
            [NewBlinkt ''blue'' 1,
             Flash 0 ''red'' 1 2 50000000, Set 0 ''red'' 1,
             Set 1 ''off'' 0, Set 2 ''off'' 0, Set 3 ''off'' 0, Set 4 ''off'' 0, Set 5 ''off'' 0,
             Set 6 ''off'' 0, Set 7 ''off'' 0, Show,
             Set 0 ''red'' 1, Flash 1 ''red'' 1 2 50000000, Set 1 ''red'' 1,
             Set 2 ''off'' 0, Set 3 ''off'' 0, Set 4 ''off'' 0, Set 5 ''off'' 0,
             Set 6 ''off'' 0, Set 7 ''off'' 0, Show]\<rparr>
   \<and> \<not> distinct (map key [rec ''a'' ''red'' unchanged, rec ''a'' ''red'' unchanged])"
  by (simp add: NewController_def name_of_def AddFunc_def keyFunc_def updateBlinkt_char rec_def
      Millisecond_def upt_conv_Cons Let_def)

section \<open>The collection between events\<close>

text \<open>
  Every handler that returns leaves only steady records, so between two events the
  collection holds no removed, new or changed record. The pass that \<^verbatim>\<open>DeleteFunc\<close>
  runs therefore starts from a collection in which the record it has just marked is the
  only removed one.
\<close>

lemma pass_steady: "r \<in> set (resourceList (updateBlinkt off c)) \<Longrightarrow> state r = unchanged"
  by (simp add: updateBlinkt_char survivors_all_steady)

lemma deliver_steady:
  assumes "\<forall>r\<in>set (resourceList c). state r = unchanged"
    and "deliver off mk colorFunc c e = Inr c'"
  shows "\<forall>r\<in>set (resourceList c'). state r = unchanged"
proof (cases e)
  case (OnAdd obj)
  with assms(2) show ?thesis
    by (auto simp: AddFunc_def Let_def pass_steady split: sum.splits)
next
  case (OnUpdate oldObj newObj)
  with assms show ?thesis
    by (auto simp: UpdateFunc_def Let_def pass_steady split: sum.splits option.splits if_splits)
next
  case (OnDelete obj)
  with assms(2) show ?thesis
    by (auto simp: DeleteFunc_def Let_def pass_steady split: sum.splits option.splits)
qed

lemma run_steady:
  "\<forall>r\<in>set (resourceList c). state r = unchanged \<Longrightarrow> run off mk colorFunc c es = Inr c' \<Longrightarrow>
   \<forall>r\<in>set (resourceList c'). state r = unchanged"
proof (induction es arbitrary: c)
  case Nil
  then show ?case by simp
next
  case (Cons e es)
  from Cons.prems(2) obtain c1 where
    d: "deliver off mk colorFunc c e = Inr c1" and r: "run off mk colorFunc c1 es = Inr c'"
    by (auto split: sum.splits)
  from Cons.prems(1) d have "\<forall>r\<in>set (resourceList c1). state r = unchanged"
    by (rule deliver_steady)
  from this r show ?case by (rule Cons.IH)
qed

lemma DeleteFunc_marks_one:
  assumes "\<forall>r\<in>set (resourceList c). state r = unchanged"
    and "mk obj = Inr k"
    and "getResource c k = Some i"
  shows "\<exists>c1. DeleteFunc off mk c obj = Inr (updateBlinkt off c1)
     \<and> length (resourceList c1) = length (resourceList c)
     \<and> i < length (resourceList c1)
     \<and> state (resourceList c1 ! i) = deleted
     \<and> (\<forall>m < length (resourceList c1). m \<noteq> i \<longrightarrow> state (resourceList c1 ! m) \<noteq> deleted)"
proof -
  let ?c1 = "c\<lparr>resourceList := (resourceList c)[i := (resourceList c ! i)\<lparr>state := deleted\<rparr>]\<rparr>"
  from assms(3) have i: "i < length (resourceList c)"
    by (simp add: getResource_Some)
  have "DeleteFunc off mk c obj = Inr (updateBlinkt off ?c1)"
    using assms(2,3) by (simp add: DeleteFunc_def keyFunc_def)
  moreover have "\<forall>m < length (resourceList ?c1). m \<noteq> i \<longrightarrow> state (resourceList ?c1 ! m) \<noteq> deleted"
    using assms(1) by (auto simp: all_set_conv_all_nth)
  ultimately show ?thesis
    using i by (intro exI [of _ ?c1]) simp
qed

end
